theory Spec2Isabelle
  imports Main
begin

section \<open>Values, effects and deferred computations\<close>

text \<open>
  The library dispatches on the runtime class of its input: \<^verbatim>\<open>typeof input === "function"\<close>,
  \<^verbatim>\<open>input instanceof Promise\<close>, anything else. A value is therefore one of three things.
  The configuration payload \<open>'c\<close> and the error values \<open>'e\<close> are opaque to the library.

  Every call may have side effects and may throw. A call is a function from the state
  \<open>'s\<close> of the surrounding program (heap, logs, whatever the caller's functions touch) to
  a result and the state after the call; \<open>Inl e\<close> is the exception \<open>e\<close> thrown.

  A promise is the computation it stands for: run from the state in which it is awaited,
  it settles (fulfilled with a value, rejected with an error) or stays pending for ever,
  and leaves the state behind in which its continuation runs. Every promise of the
  library is awaited once, by the next stage of a chain or by the caller, so a promise
  and the run of its computation correspond one to one.
\<close>

datatype ('a, 'e) outcome = Fulfilled 'a | Rejected 'e | Pending

datatype ('c, 'e, 's) jsval =
    Obj 'c
  | Fn "'c \<Rightarrow> 's \<Rightarrow> ('e + ('c, 'e, 's) jsval) \<times> 's"
  | Promise "'s \<Rightarrow> (('c, 'e, 's) jsval, 'e) outcome \<times> 's"

type_synonym ('c, 'e, 's) call = "'s \<Rightarrow> ('e + ('c, 'e, 's) jsval) \<times> 's"

type_synonym ('c, 'e, 's) deferred = "'s \<Rightarrow> (('c, 'e, 's) jsval, 'e) outcome \<times> 's"

text \<open>
  What a promise resolved with the result of a call becomes: rejected with what the call
  threw, the outcome of the promise the call returned, or fulfilled with any other value
  it returned. This is also what \<^verbatim>\<open>await\<close> of the call's result gives.
\<close>

definition settle :: "('e + ('c, 'e, 's) jsval) \<times> 's \<Rightarrow> (('c, 'e, 's) jsval, 'e) outcome \<times> 's" where
  "settle r =
     (case r of
        (Inl e, s) \<Rightarrow> (Rejected e, s)
      | (Inr (Promise q), s) \<Rightarrow> q s
      | (Inr v, s) \<Rightarrow> (Fulfilled v, s))"

text \<open>
  \<^verbatim>\<open>promise.then(onFulfilled)\<close> of the language: the callback runs on the fulfilment
  value, in the state the promise left, and the new promise is resolved with the
  callback's result. A rejection and a promise that never settles skip the callback.
\<close>

definition promise_then ::
  "('c, 'e, 's) deferred \<Rightarrow> (('c, 'e, 's) jsval \<Rightarrow> ('c, 'e, 's) call) \<Rightarrow> ('c, 'e, 's) deferred"
where
  "promise_then p onFulfilled = (\<lambda>s.
     case p s of
       (Fulfilled v, s1) \<Rightarrow> settle (onFulfilled v s1)
     | (Rejected e, s1) \<Rightarrow> (Rejected e, s1)
     | (Pending, s1) \<Rightarrow> (Pending, s1))"

section \<open>createMetroConfigTransformer\<close>

text \<open>
  \<^verbatim>\<open>options?: TOptions\<close> is \<open>'o option\<close>: \<open>None\<close> is \<^verbatim>\<open>undefined\<close>, what a
  parameter holds when the caller passes nothing.
\<close>

type_synonym ('c, 'e, 's, 'o) mutation =
  "('c, 'e, 's) jsval \<Rightarrow> 'o option \<Rightarrow> ('c, 'e, 's) call"

type_synonym ('c, 'e, 's, 'o) transformer =
  "('c, 'e, 's) jsval \<Rightarrow> 'o option \<Rightarrow> ('c, 'e, 's) call"

definition createMetroConfigTransformer ::
  "('c, 'e, 's, 'o) mutation \<Rightarrow> ('c, 'e, 's, 'o) transformer"
where
  "createMetroConfigTransformer mutate input options = (\<lambda>s.
     case input of
       Fn f \<Rightarrow>
         (Inr (Fn (\<lambda>baseConfig t.
            case f baseConfig t of
              (Inl e, t1) \<Rightarrow> (Inl e, t1)
            | (Inr (Promise result), t1) \<Rightarrow>
                (Inr (Promise (promise_then result (\<lambda>config. mutate config options))), t1)
            | (Inr result, t1) \<Rightarrow> mutate result options t1)), s)
     | Promise p \<Rightarrow>
         (Inr (Promise (promise_then p (\<lambda>resolved u.
            case resolved of
              Fn g \<Rightarrow>
                (Inr (Fn (\<lambda>baseConfig t.
                   case g baseConfig t of
                     (Inl e, t1) \<Rightarrow> (Inl e, t1)
                   | (Inr (Promise result), t1) \<Rightarrow>
                       (Inr (Promise (promise_then result (\<lambda>config. mutate config options))), t1)
                   | (Inr result, t1) \<Rightarrow> mutate result options t1)), u)
            | _ \<Rightarrow> mutate resolved options u))), s)
     | Obj c \<Rightarrow> mutate input options s)"

section \<open>composeMetroConfigTransformers\<close>

text \<open>
  An entry is a transformer or the array \<^verbatim>\<open>[transformer, options]\<close>
  (\<^verbatim>\<open>Array.isArray(entry)\<close>).
\<close>

datatype ('c, 'e, 's, 'o) entry =
    Plain "('c, 'e, 's, 'o) transformer"
  | Tuple "('c, 'e, 's, 'o) transformer" "'o option"

text \<open>The callback of \<^verbatim>\<open>entries.reduce\<close>.\<close>

fun apply_entry ::
  "('c, 'e, 's) jsval \<Rightarrow> ('c, 'e, 's, 'o) entry \<Rightarrow> ('c, 'e, 's) call"
where
  "apply_entry acc (Tuple transformer options) = transformer acc options"
| "apply_entry acc (Plain entry) = entry acc None"

text \<open>
  \<^verbatim>\<open>Array.prototype.reduce\<close> with an initial value: the callback runs on the elements
  from left to right, and an exception thrown by it ends the loop.
\<close>

fun reduce ::
  "('c, 'e, 's, 'o) entry list \<Rightarrow> ('c, 'e, 's) jsval \<Rightarrow> ('c, 'e, 's) call"
where
  "reduce [] acc s = (Inr acc, s)"
| "reduce (entry # entries) acc s =
     (case apply_entry acc entry s of
        (Inl e, s1) \<Rightarrow> (Inl e, s1)
      | (Inr acc1, s1) \<Rightarrow> reduce entries acc1 s1)"

definition composeMetroConfigTransformers ::
  "('c, 'e, 's, 'o) entry list \<Rightarrow> ('c, 'e, 's) jsval \<Rightarrow> ('c, 'e, 's) call"
where
  "composeMetroConfigTransformers entries input = reduce entries input"

section \<open>Vocabulary of the specification\<close>

text \<open>\<^verbatim>\<open>result instanceof Promise\<close> for what a call returned; a call that threw returned nothing.\<close>

definition returns_deferred :: "('e + ('c, 'e, 's) jsval) \<times> 's \<Rightarrow> bool" where
  "returns_deferred r = (case r of (Inr (Promise q), s) \<Rightarrow> True | _ \<Rightarrow> False)"

text \<open>
  The function literal that \<open>createMetroConfigTransformer\<close> builds around a callable. The
  source writes it twice, around \<^verbatim>\<open>input\<close> and around \<^verbatim>\<open>resolved\<close>; here it has a
  name, so that theorems can speak about it.
\<close>

definition wrapper ::
  "('c, 'e, 's, 'o) mutation \<Rightarrow> 'o option \<Rightarrow> ('c \<Rightarrow> ('c, 'e, 's) call) \<Rightarrow> 'c \<Rightarrow> ('c, 'e, 's) call"
where
  "wrapper mutate options input = (\<lambda>baseConfig t.
     case input baseConfig t of
       (Inl e, t1) \<Rightarrow> (Inl e, t1)
     | (Inr (Promise result), t1) \<Rightarrow>
         (Inr (Promise (promise_then result (\<lambda>config. mutate config options))), t1)
     | (Inr result, t1) \<Rightarrow> mutate result options t1)"

text \<open>
  The wrapping behaviour in the specification's words: invoked with a base configuration,
  \<open>g\<close> first invokes \<open>f\<close>; if that result is deferred, \<open>g\<close> waits for it and then applies
  \<open>mutate\<close>; if it is immediate, \<open>g\<close> applies \<open>mutate\<close> directly; and the result of \<open>g\<close> is
  deferred if and only if the result of \<open>f\<close> is or \<open>mutate\<close> returns a deferred result for that
  invocation.
\<close>

definition producer_wrapping ::
  "('c, 'e, 's, 'o) mutation \<Rightarrow> 'o option \<Rightarrow> ('c \<Rightarrow> ('c, 'e, 's) call) \<Rightarrow>
   ('c \<Rightarrow> ('c, 'e, 's) call) \<Rightarrow> bool"
where
  "producer_wrapping mutate options f g \<longleftrightarrow>
     (\<forall>baseConfig t.
        (returns_deferred (g baseConfig t) \<longleftrightarrow>
           returns_deferred (f baseConfig t) \<or>
           (\<exists>v t1. f baseConfig t = (Inr v, t1) \<and> returns_deferred (mutate v options t1))) \<and>
        (\<forall>v t1. f baseConfig t = (Inr v, t1) \<and> \<not> returns_deferred (f baseConfig t) \<longrightarrow>
           g baseConfig t = mutate v options t1) \<and>
        (\<forall>p t1. f baseConfig t = (Inr (Promise p), t1) \<longrightarrow>
           g baseConfig t = (Inr (Promise (promise_then p (\<lambda>config. mutate config options))), t1)))"

text \<open>
  The consumer of an output: it invokes a callable with a base configuration and awaits
  what comes back; it awaits a deferred output and, if that resolves to a callable,
  invokes it and awaits again; a direct value it has at once. The outcome and the final
  state are everything the consumer can observe of a transformation.
\<close>

definition consume ::
  "'c \<Rightarrow> ('c, 'e, 's) jsval \<Rightarrow> ('c, 'e, 's) deferred"
where
  "consume baseConfig v s =
     (case v of
        Fn f \<Rightarrow> settle (f baseConfig s)
      | Promise p \<Rightarrow>
          (case p s of
             (Fulfilled (Fn f), s1) \<Rightarrow> settle (f baseConfig s1)
           | r \<Rightarrow> r)
      | Obj c \<Rightarrow> (Fulfilled v, s))"

text \<open>The same for the result of a call: an exception is a failure with that error.\<close>

definition consume_result ::
  "'c \<Rightarrow> ('e + ('c, 'e, 's) jsval) \<times> 's \<Rightarrow> (('c, 'e, 's) jsval, 'e) outcome \<times> 's"
where
  "consume_result baseConfig r =
     (case r of
        (Inl e, s) \<Rightarrow> (Rejected e, s)
      | (Inr v, s) \<Rightarrow> consume baseConfig v s)"

text \<open>
  Entries as the specification has them: a transformer made by
  \<open>createMetroConfigTransformer\<close>, alone or paired with options.
\<close>

datatype ('c, 'e, 's, 'o) adapted =
    Adapted "('c, 'e, 's, 'o) mutation"
  | AdaptedWith "('c, 'e, 's, 'o) mutation" "'o option"

fun entry_of :: "('c, 'e, 's, 'o) adapted \<Rightarrow> ('c, 'e, 's, 'o) entry" where
  "entry_of (Adapted mutate) = Plain (createMetroConfigTransformer mutate)"
| "entry_of (AdaptedWith mutate options) = Tuple (createMetroConfigTransformer mutate) options"

text \<open>
  The declared result type of a mutation, \<^verbatim>\<open>MetroConfig | Promise<MetroConfig>\<close>: what it
  returns, or what the promise it returns resolves to, is a configuration and never a
  callable or another promise.
\<close>

definition config_valued :: "('c, 'e, 's, 'o) mutation \<Rightarrow> bool" where
  "config_valued mutate \<longleftrightarrow>
     (\<forall>c options s v s1. settle (mutate (Obj c) options s) = (Fulfilled v, s1) \<longrightarrow> (\<exists>c1. v = Obj c1))"

fun mutation_of :: "('c, 'e, 's, 'o) adapted \<Rightarrow> ('c, 'e, 's, 'o) mutation" where
  "mutation_of (Adapted mutate) = mutate"
| "mutation_of (AdaptedWith mutate options) = mutate"

text \<open>
  What a chain of adapted transformers is meant to do to a configuration: the mutations
  run in the order of the entries, each on the configuration the one before it gave and
  in the state it left, each with the options of its own entry (\<^verbatim>\<open>undefined\<close> for a bare
  entry); the first mutation that does not give a configuration ends the run with its
  outcome.
\<close>

fun run_units ::
  "('c, 'e, 's, 'o) adapted list \<Rightarrow> 'c \<Rightarrow> ('c, 'e, 's) deferred"
where
  "run_units [] c s = (Fulfilled (Obj c), s)"
| "run_units (Adapted mutate # units) c s =
     (case settle (mutate (Obj c) None s) of
        (Fulfilled (Obj c1), s1) \<Rightarrow> run_units units c1 s1
      | r \<Rightarrow> r)"
| "run_units (AdaptedWith mutate options # units) c s =
     (case settle (mutate (Obj c) options s) of
        (Fulfilled (Obj c1), s1) \<Rightarrow> run_units units c1 s1
      | r \<Rightarrow> r)"

section \<open>Example mutations and producers\<close>

text \<open>
  In the examples a configuration is the list of its keys in insertion order, an error is
  its message, and the state is a log to which every caller-supplied function appends
  when it runs.

  \<open>mark tag async\<close> is the mutation \<^verbatim>\<open>(config) => ({...config, order: [...config.order, tag]})\<close>,
  declared \<^verbatim>\<open>async\<close> or not.
\<close>

definition mark :: "string \<Rightarrow> bool \<Rightarrow> (string list, string, string list, string) mutation" where
  "mark tag async config options log =
     (case config of
        Obj c \<Rightarrow>
          (if async then (Inr (Promise (\<lambda>u. (Fulfilled (Obj (c @ [tag])), u))), log @ [tag])
           else (Inr (Obj (c @ [tag])), log @ [tag]))
      | _ \<Rightarrow> (Inl ''TypeError'', log))"

text \<open>
  The entry of a marking transformer: bare, or the tuple with some options (which the
  marking mutation does not read).
\<close>

definition mark_entry ::
  "string \<Rightarrow> bool \<Rightarrow> string option option \<Rightarrow> (string list, string, string list, string) entry"
where
  "mark_entry tag async paired =
     (case paired of
        None \<Rightarrow> Plain (createMetroConfigTransformer (mark tag async))
      | Some options \<Rightarrow> Tuple (createMetroConfigTransformer (mark tag async)) options)"

text \<open>\<^verbatim>\<open>(config, options) => ({...config, [String(options)]: true})\<close>, and its \<^verbatim>\<open>async\<close> twin.\<close>

definition add_key :: "(string list, string, string list, string) mutation" where
  "add_key config options log =
     (case config of
        Obj c \<Rightarrow>
          (Inr (Obj (c @ [case options of None \<Rightarrow> ''undefined'' | Some k \<Rightarrow> k])), log @ [''mutate''])
      | _ \<Rightarrow> (Inl ''TypeError'', log @ [''mutate'']))"

definition add_key_async :: "(string list, string, string list, string) mutation" where
  "add_key_async config options log =
     (case config of
        Obj c \<Rightarrow>
          (Inr (Promise (\<lambda>u.
             (Fulfilled (Obj (c @ [case options of None \<Rightarrow> ''undefined'' | Some k \<Rightarrow> k])), u))),
           log @ [''mutate''])
      | _ \<Rightarrow> (Inr (Promise (\<lambda>u. (Rejected ''TypeError'', u))), log @ [''mutate'']))"

text \<open>Mutations that fail: one throws, one returns a rejected promise.\<close>

definition throwing_mutation :: "(string list, string, string list, string) mutation" where
  "throwing_mutation config options log = (Inl ''boom'', log @ [''throw''])"

definition rejecting_mutation :: "(string list, string, string list, string) mutation" where
  "rejecting_mutation config options log =
     (Inr (Promise (\<lambda>u. (Rejected ''boom'', u))), log @ [''reject''])"

text \<open>
  A transformer written by hand rather than made by \<open>createMetroConfigTransformer\<close>:
  \<^verbatim>\<open>(input) => { log.push("late"); return { recovered: true }; }\<close>.
\<close>

definition recovering_entry :: "(string list, string, string list, string) transformer" where
  "recovering_entry input options log = (Inr (Obj [''recovered'']), log @ [''late''])"

text \<open>
  Producers: \<^verbatim>\<open>(base) => ({...base, x: true})\<close>, its \<^verbatim>\<open>async\<close> twin, one that throws
  and one that rejects.
\<close>

definition extend_base :: "string list \<Rightarrow> (string list, string, string list) call" where
  "extend_base baseConfig log = (Inr (Obj (baseConfig @ [''x''])), log @ [''inner''])"

definition extend_base_async :: "string list \<Rightarrow> (string list, string, string list) call" where
  "extend_base_async baseConfig log =
     (Inr (Promise (\<lambda>u. (Fulfilled (Obj (baseConfig @ [''x''])), u))), log @ [''inner''])"

definition throwing_producer :: "string list \<Rightarrow> (string list, string, string list) call" where
  "throwing_producer baseConfig log = (Inl ''boom'', log @ [''inner''])"

definition rejecting_producer :: "string list \<Rightarrow> (string list, string, string list) call" where
  "rejecting_producer baseConfig log =
     (Inr (Promise (\<lambda>u. (Rejected ''boom'', u))), log @ [''inner''])"

text \<open>
  A heap of objects, each the list of its keys, with references as addresses. The
  mutation \<^verbatim>\<open>(config) => ({...config, newProperty: "added"})\<close> allocates the copy at the
  next address and leaves the object it was given alone.
\<close>

definition allocate_copy :: "(nat, string, nat \<Rightarrow> string list, string) mutation" where
  "allocate_copy config options heap =
     (case config of
        Obj a \<Rightarrow> (Inr (Obj (Suc a)), heap (Suc a := heap a @ [''newProperty'']))
      | _ \<Rightarrow> (Inl ''TypeError'', heap))"

section \<open>Basic facts\<close>

lemma returns_deferred_simps [simp]:
  "returns_deferred (Inl e, s) = False"
  "returns_deferred (Inr (Obj c), s) = False"
  "returns_deferred (Inr (Fn f), s) = False"
  "returns_deferred (Inr (Promise p), s) = True"
  by (simp_all add: returns_deferred_def)

lemma settle_simps [simp]:
  "settle (Inl e, s) = (Rejected e, s)"
  "settle (Inr (Obj c), s) = (Fulfilled (Obj c), s)"
  "settle (Inr (Fn f), s) = (Fulfilled (Fn f), s)"
  "settle (Inr (Promise p), s) = p s"
  by (simp_all add: settle_def)

lemma then_Fulfilled: "p s = (Fulfilled v, s1) \<Longrightarrow> promise_then p k s = settle (k v s1)"
  by (simp add: promise_then_def)

lemma then_Rejected: "p s = (Rejected e, s1) \<Longrightarrow> promise_then p k s = (Rejected e, s1)"
  by (simp add: promise_then_def)

lemma then_Pending: "p s = (Pending, s1) \<Longrightarrow> promise_then p k s = (Pending, s1)"
  by (simp add: promise_then_def)

lemma then_unfulfilled:
  "p s = (out, s1) \<Longrightarrow> \<forall>x. out \<noteq> Fulfilled x \<Longrightarrow> promise_then p k s = (out, s1)"
  by (cases out) (simp_all add: promise_then_def)

subsection \<open>The wrapper\<close>

lemma wrapper_throws: "f b t = (Inl e, t1) \<Longrightarrow> wrapper mutate options f b t = (Inl e, t1)"
  by (simp add: wrapper_def)

lemma wrapper_deferred:
  "f b t = (Inr (Promise p), t1) \<Longrightarrow>
   wrapper mutate options f b t =
     (Inr (Promise (promise_then p (\<lambda>config. mutate config options))), t1)"
  by (simp add: wrapper_def)

lemma wrapper_immediate:
  "f b t = (Inr v, t1) \<Longrightarrow> \<not> returns_deferred (f b t) \<Longrightarrow>
   wrapper mutate options f b t = mutate v options t1"
  by (cases v) (simp_all add: wrapper_def)

lemma wrapper_returns_deferred:
  "returns_deferred (wrapper mutate options f b t) \<longleftrightarrow>
     returns_deferred (f b t) \<or>
     (\<exists>v t1. f b t = (Inr v, t1) \<and> returns_deferred (mutate v options t1))"
proof (cases "f b t")
  case (Pair a t1)
  show ?thesis
  proof (cases a)
    case (Inl e)
    with Pair show ?thesis by (simp add: wrapper_def)
  next
    case (Inr v)
    with Pair show ?thesis by (cases v) (simp_all add: wrapper_def)
  qed
qed

lemma wrapper_producer_wrapping: "producer_wrapping mutate options f (wrapper mutate options f)"
  unfolding producer_wrapping_def
proof (intro allI conjI impI)
  fix baseConfig t
  show "returns_deferred (wrapper mutate options f baseConfig t) \<longleftrightarrow>
           returns_deferred (f baseConfig t) \<or>
           (\<exists>v t1. f baseConfig t = (Inr v, t1) \<and> returns_deferred (mutate v options t1))"
    by (rule wrapper_returns_deferred)
next
  fix baseConfig t v t1
  assume "f baseConfig t = (Inr v, t1) \<and> \<not> returns_deferred (f baseConfig t)"
  then show "wrapper mutate options f baseConfig t = mutate v options t1"
    using wrapper_immediate [of f baseConfig t v t1 mutate options] by blast
next
  fix baseConfig t p t1
  assume "f baseConfig t = (Inr (Promise p), t1)"
  then show "wrapper mutate options f baseConfig t =
      (Inr (Promise (promise_then p (\<lambda>config. mutate config options))), t1)"
    by (rule wrapper_deferred)
qed

text \<open>Awaiting what the wrapper returns is awaiting the inner call and then mutating.\<close>

lemma settle_wrapper:
  "settle (wrapper mutate options f b t) =
     promise_then (\<lambda>t. settle (f b t)) (\<lambda>config. mutate config options) t"
proof (cases "f b t")
  case (Pair a t1)
  show ?thesis
  proof (cases a)
    case (Inl e)
    with Pair show ?thesis by (simp add: wrapper_def promise_then_def)
  next
    case (Inr v)
    with Pair show ?thesis by (cases v) (simp_all add: wrapper_def promise_then_def)
  qed
qed

subsection \<open>The three branches of the transformer\<close>

lemma cmt_Fn:
  "createMetroConfigTransformer mutate (Fn f) options s = (Inr (Fn (wrapper mutate options f)), s)"
  by (simp add: createMetroConfigTransformer_def wrapper_def)

lemma cmt_Promise:
  "createMetroConfigTransformer mutate (Promise p) options s =
     (Inr (Promise (promise_then p (\<lambda>resolved u.
            case resolved of
              Fn g \<Rightarrow> (Inr (Fn (wrapper mutate options g)), u)
            | _ \<Rightarrow> mutate resolved options u))), s)"
  by (simp add: createMetroConfigTransformer_def wrapper_def cong: jsval.case_cong)

lemma cmt_Obj:
  "createMetroConfigTransformer mutate (Obj c) options s = mutate (Obj c) options s"
  by (simp add: createMetroConfigTransformer_def)

lemma cmt_options:
  "createMetroConfigTransformer mutate input options =
     createMetroConfigTransformer (\<lambda>config ignored. mutate config options) input options'"
  by (simp add: createMetroConfigTransformer_def)

subsection \<open>The consumer\<close>

lemma consume_Obj: "consume b (Obj c) s = (Fulfilled (Obj c), s)"
  by (simp add: consume_def)

lemma consume_Fn: "consume b (Fn f) s = settle (f b s)"
  by (simp add: consume_def)

lemma consume_Promise_Fn:
  "p s = (Fulfilled (Fn f), s1) \<Longrightarrow> consume b (Promise p) s = settle (f b s1)"
  by (simp add: consume_def)

lemma consume_Promise_other:
  "p s = (r, s1) \<Longrightarrow> \<forall>f. r \<noteq> Fulfilled (Fn f) \<Longrightarrow> consume b (Promise p) s = (r, s1)"
  by (auto simp add: consume_def split: outcome.splits jsval.splits)

lemma consume_result_settle:
  assumes "\<forall>v s1. settle r = (Fulfilled v, s1) \<longrightarrow> (\<exists>c1. v = Obj c1)"
  shows "consume_result b r = settle r"
proof (cases r)
  case (Pair a s)
  show ?thesis
  proof (cases a)
    case (Inl e)
    with Pair show ?thesis by (simp add: consume_result_def)
  next
    case (Inr v)
    show ?thesis
    proof (cases v)
      case (Obj c)
      with Pair Inr show ?thesis by (simp add: consume_result_def consume_Obj)
    next
      case (Fn f)
      with Pair Inr assms show ?thesis by simp
    next
      case (Promise q)
      obtain out s1 where q: "q s = (out, s1)" by (cases "q s")
      with Pair Inr Promise assms have "\<forall>f. out \<noteq> Fulfilled (Fn f)" by auto
      with q have "consume b (Promise q) s = (out, s1)" by (rule consume_Promise_other)
      with Pair Inr Promise q show ?thesis by (simp add: consume_result_def)
    qed
  qed
qed

subsection \<open>The fold\<close>

lemma reduce_append:
  "reduce (xs @ ys) acc s =
     (case reduce xs acc s of
        (Inl e, s1) \<Rightarrow> (Inl e, s1)
      | (Inr acc1, s1) \<Rightarrow> reduce ys acc1 s1)"
  by (induction xs arbitrary: acc s) (auto split: prod.splits sum.splits)

lemma compose_Tuple_in_chain:
  "composeMetroConfigTransformers (before @ Tuple transformer options # after) input s =
     (case composeMetroConfigTransformers before input s of
        (Inl e, s1) \<Rightarrow> (Inl e, s1)
      | (Inr acc, s1) \<Rightarrow>
          (case transformer acc options s1 of
             (Inl e, s2) \<Rightarrow> (Inl e, s2)
           | (Inr acc1, s2) \<Rightarrow> composeMetroConfigTransformers after acc1 s2))"
  by (simp add: composeMetroConfigTransformers_def reduce_append split: prod.splits sum.splits)

lemma compose_Plain_in_chain:
  "composeMetroConfigTransformers (before @ Plain transformer # after) input s =
     (case composeMetroConfigTransformers before input s of
        (Inl e, s1) \<Rightarrow> (Inl e, s1)
      | (Inr acc, s1) \<Rightarrow>
          (case transformer acc None s1 of
             (Inl e, s2) \<Rightarrow> (Inl e, s2)
           | (Inr acc1, s2) \<Rightarrow> composeMetroConfigTransformers after acc1 s2))"
  by (simp add: composeMetroConfigTransformers_def reduce_append split: prod.splits sum.splits)

lemma apply_entry_of:
  "apply_entry acc (entry_of u) =
     createMetroConfigTransformer (case u of Adapted m \<Rightarrow> m | AdaptedWith m options \<Rightarrow> m) acc
       (case u of Adapted m \<Rightarrow> None | AdaptedWith m options \<Rightarrow> options)"
  by (cases u) simp_all

lemma mutation_of_case: "(case u of Adapted m \<Rightarrow> m | AdaptedWith m options \<Rightarrow> m) = mutation_of u"
  by (cases u) simp_all

lemma run_units_Cons:
  "run_units (u # units) c s =
     (case settle (mutation_of u (Obj c) (case u of Adapted m \<Rightarrow> None | AdaptedWith m options \<Rightarrow> options) s) of
        (Fulfilled (Obj c1), s1) \<Rightarrow> run_units units c1 s1
      | r \<Rightarrow> r)"
  by (cases u) simp_all

lemma apply_mark_entry:
  "apply_entry acc (mark_entry tag async paired) =
     createMetroConfigTransformer (mark tag async) acc
       (case paired of None \<Rightarrow> None | Some options \<Rightarrow> options)"
  by (cases paired) (simp_all add: mark_entry_def)

subsection \<open>One transformer, seen by the consumer\<close>

text \<open>
  A rejection or a pending state that the consumer would meet in a value is what it meets
  in the transformed value, in the same state: the mutation has not run.
\<close>

lemma transformer_keeps_unfulfilled:
  assumes "consume b v s = (out, s')" and un: "\<forall>x. out \<noteq> Fulfilled x"
  shows "consume_result b (createMetroConfigTransformer mutate v options s) = (out, s')"
proof (cases v)
  case (Obj c)
  with assms show ?thesis by (auto simp add: consume_Obj)
next
  case (Fn f)
  with assms have "settle (f b s) = (out, s')" by (simp add: consume_Fn)
  then have "settle (wrapper mutate options f b s) = (out, s')"
    using un by (simp add: settle_wrapper then_unfulfilled)
  with Fn show ?thesis
    by (simp add: cmt_Fn consume_result_def consume_Fn)
next
  case (Promise p)
  let ?k = "\<lambda>resolved u. case resolved of
              Fn g \<Rightarrow> (Inr (Fn (wrapper mutate options g)), u)
            | _ \<Rightarrow> mutate resolved options u"
  have res: "consume_result b (createMetroConfigTransformer mutate v options s) =
      consume b (Promise (promise_then p ?k)) s"
    using Promise by (simp add: cmt_Promise consume_result_def)
  obtain r s1 where ps: "p s = (r, s1)" by (cases "p s")
  show ?thesis
  proof (cases "\<exists>f. r = Fulfilled (Fn f)")
    case True
    then obtain f where r: "r = Fulfilled (Fn f)" by blast
    with ps assms Promise have "settle (f b s1) = (out, s')"
      by (simp add: consume_Promise_Fn)
    then have "settle (wrapper mutate options f b s1) = (out, s')"
      using un by (simp add: settle_wrapper then_unfulfilled)
    moreover have "promise_then p ?k s = (Fulfilled (Fn (wrapper mutate options f)), s1)"
      using ps r by (simp add: then_Fulfilled)
    ultimately show ?thesis
      using res by (simp add: consume_Promise_Fn)
  next
    case False
    with ps assms Promise have eq: "(r, s1) = (out, s')"
      by (simp add: consume_Promise_other)
    with ps un have "promise_then p ?k s = (out, s')"
      by (simp add: then_unfulfilled)
    then show ?thesis
      using res un by (simp add: consume_Promise_other)
  qed
qed

lemma reduce_keeps_unfulfilled:
  "consume_result b r = (out, s') \<Longrightarrow> \<forall>x. out \<noteq> Fulfilled x \<Longrightarrow>
   consume_result b (case r of (Inl e, s1) \<Rightarrow> (Inl e, s1)
                     | (Inr acc, s1) \<Rightarrow> reduce (map entry_of units) acc s1) = (out, s')"
proof (induction units arbitrary: r)
  case Nil
  then show ?case by (auto split: prod.splits sum.splits simp: consume_result_def)
next
  case (Cons u units)
  obtain a s1 where r: "r = (a, s1)" by (cases r)
  show ?case
  proof (cases a)
    case (Inl e)
    with r Cons.prems show ?thesis by simp
  next
    case (Inr acc)
    with r Cons.prems have c: "consume b acc s1 = (out, s')"
      by (simp add: consume_result_def)
    from c Cons.prems(2) have "consume_result b (apply_entry acc (entry_of u) s1) = (out, s')"
      unfolding apply_entry_of by (rule transformer_keeps_unfulfilled)
    from Cons.IH [OF this Cons.prems(2)] r Inr show ?thesis
      by simp
  qed
qed

text \<open>
  A configuration that the consumer would get from a value reaches the mutation, with the
  options the transformer was called with, whatever the shape of the value.
\<close>

lemma transformer_delivers:
  assumes c: "consume b v s = (Fulfilled (Obj c), s')" and cv: "config_valued mutate"
  shows "consume_result b (createMetroConfigTransformer mutate v options s) =
           settle (mutate (Obj c) options s')"
proof -
  from cv have typed: "\<forall>v s1. settle (mutate (Obj c) options s') = (Fulfilled v, s1) \<longrightarrow> (\<exists>c1. v = Obj c1)"
    unfolding config_valued_def by blast
  obtain out s2 where m: "settle (mutate (Obj c) options s') = (out, s2)"
    by (cases "settle (mutate (Obj c) options s')")
  with typed have nofn: "\<forall>f. out \<noteq> Fulfilled (Fn f)" by auto
  show ?thesis
  proof (cases v)
    case (Obj c0)
    with c have "c0 = c" "s' = s" by (simp_all add: consume_Obj)
    with Obj typed show ?thesis
      by (simp add: cmt_Obj consume_result_settle)
  next
    case (Fn f)
    with c have "settle (f b s) = (Fulfilled (Obj c), s')" by (simp add: consume_Fn)
    then have "settle (wrapper mutate options f b s) = settle (mutate (Obj c) options s')"
      by (simp add: settle_wrapper then_Fulfilled)
    with Fn show ?thesis
      by (simp add: cmt_Fn consume_result_def consume_Fn)
  next
    case (Promise p)
    let ?k = "\<lambda>resolved u. case resolved of
                Fn g \<Rightarrow> (Inr (Fn (wrapper mutate options g)), u)
              | _ \<Rightarrow> mutate resolved options u"
    have res: "consume_result b (createMetroConfigTransformer mutate v options s) =
        consume b (Promise (promise_then p ?k)) s"
      using Promise by (simp add: cmt_Promise consume_result_def)
    obtain r s1 where ps: "p s = (r, s1)" by (cases "p s")
    show ?thesis
    proof (cases "\<exists>f. r = Fulfilled (Fn f)")
      case True
      then obtain f where r: "r = Fulfilled (Fn f)" by blast
      with ps c Promise have "settle (f b s1) = (Fulfilled (Obj c), s')"
        by (simp add: consume_Promise_Fn)
      then have "settle (wrapper mutate options f b s1) = settle (mutate (Obj c) options s')"
        by (simp add: settle_wrapper then_Fulfilled)
      moreover have "promise_then p ?k s = (Fulfilled (Fn (wrapper mutate options f)), s1)"
        using ps r by (simp add: then_Fulfilled)
      ultimately show ?thesis
        using res by (simp add: consume_Promise_Fn)
    next
      case False
      with ps c Promise have "(r, s1) = (Fulfilled (Obj c), s')"
        by (simp add: consume_Promise_other)
      with ps have "promise_then p ?k s = (out, s2)"
        by (simp add: then_Fulfilled m)
      then have "consume b (Promise (promise_then p ?k)) s = (out, s2)"
        using nofn by (rule consume_Promise_other)
      with res m show ?thesis by simp
    qed
  qed
qed

lemma reduce_adapted:
  assumes typed: "\<forall>u\<in>set units. config_valued (mutation_of u)"
  shows "consume b acc s = (Fulfilled (Obj c), s') \<Longrightarrow>
         consume_result b (reduce (map entry_of units) acc s) = run_units units c s'"
  using typed
proof (induction units arbitrary: acc s c s')
  case Nil
  then show ?case by (simp add: consume_result_def)
next
  case (Cons u units)
  let ?options = "case u of Adapted m \<Rightarrow> None | AdaptedWith m options \<Rightarrow> options"
  from Cons.prems have cv: "config_valued (mutation_of u)"
    and rest: "\<forall>u\<in>set units. config_valued (mutation_of u)" by simp_all
  obtain out s2 where m: "settle (mutation_of u (Obj c) ?options s') = (out, s2)"
    by (cases "settle (mutation_of u (Obj c) ?options s')")
  from transformer_delivers [OF Cons.prems(1) cv, of ?options]
  have step: "consume_result b (apply_entry acc (entry_of u) s) = (out, s2)"
    by (simp add: apply_entry_of mutation_of_case m)
  have run: "run_units (u # units) c s' =
      (case (out, s2) of (Fulfilled (Obj c1), s1) \<Rightarrow> run_units units c1 s1 | r \<Rightarrow> r)"
    by (simp only: run_units_Cons m)
  have red: "reduce (map entry_of (u # units)) acc s =
      (case apply_entry acc (entry_of u) s of (Inl e, s1) \<Rightarrow> (Inl e, s1)
       | (Inr acc1, s1) \<Rightarrow> reduce (map entry_of units) acc1 s1)"
    by simp
  show ?case
  proof (cases "\<exists>c1. out = Fulfilled (Obj c1)")
    case True
    then obtain c1 where out: "out = Fulfilled (Obj c1)" by blast
    obtain a s1 where ap: "apply_entry acc (entry_of u) s = (a, s1)"
      by (cases "apply_entry acc (entry_of u) s")
    show ?thesis
    proof (cases a)
      case (Inl e)
      with step ap out show ?thesis by (simp add: consume_result_def)
    next
      case (Inr acc1)
      with step ap out have "consume b acc1 s1 = (Fulfilled (Obj c1), s2)"
        by (simp add: consume_result_def)
      from Cons.IH [OF this rest] show ?thesis
        unfolding red run by (simp add: ap Inr out)
    qed
  next
    case False
    from cv m have "\<forall>v. out = Fulfilled v \<longrightarrow> (\<exists>c1. v = Obj c1)"
      unfolding config_valued_def by blast
    with False have un: "\<forall>x. out \<noteq> Fulfilled x" by blast
    from reduce_keeps_unfulfilled [OF step un, of units]
    have "consume_result b (reduce (map entry_of (u # units)) acc s) = (out, s2)"
      unfolding red .
    moreover from un have "run_units (u # units) c s' = (out, s2)"
      unfolding run by (cases out) simp_all
    ultimately show ?thesis by simp
  qed
qed


lemma config_valued_add_key: "config_valued add_key"
  by (simp add: config_valued_def add_key_def)

lemma config_valued_add_key_async: "config_valued add_key_async"
  by (simp add: config_valued_def add_key_async_def)

text \<open>A configuration that the consumer would get from a value comes out marked.\<close>

lemma settle_mark:
  "settle (mark tag async (Obj c) options log) = (Fulfilled (Obj (c @ [tag])), log @ [tag])"
  by (simp add: mark_def)

lemma transformer_mark:
  assumes "consume b v s = (Fulfilled (Obj c), s')"
  shows "consume_result b (createMetroConfigTransformer (mark tag async) v options s) =
           (Fulfilled (Obj (c @ [tag])), s' @ [tag])"
proof (cases v)
  case (Obj c0)
  with assms have "c0 = c" "s' = s" by (simp_all add: consume_Obj)
  with Obj show ?thesis
    by (simp add: cmt_Obj consume_result_def mark_def consume_def)
next
  case (Fn f)
  with assms have "settle (f b s) = (Fulfilled (Obj c), s')" by (simp add: consume_Fn)
  then have "settle (wrapper (mark tag async) options f b s) =
      (Fulfilled (Obj (c @ [tag])), s' @ [tag])"
    by (simp add: settle_wrapper then_Fulfilled settle_mark)
  with Fn show ?thesis
    by (simp add: cmt_Fn consume_result_def consume_Fn)
next
  case (Promise p)
  let ?k = "\<lambda>resolved u. case resolved of
              Fn g \<Rightarrow> (Inr (Fn (wrapper (mark tag async) options g)), u)
            | _ \<Rightarrow> mark tag async resolved options u"
  have res: "consume_result b (createMetroConfigTransformer (mark tag async) v options s) =
      consume b (Promise (promise_then p ?k)) s"
    using Promise by (simp add: cmt_Promise consume_result_def)
  obtain r s1 where ps: "p s = (r, s1)" by (cases "p s")
  show ?thesis
  proof (cases "\<exists>f. r = Fulfilled (Fn f)")
    case True
    then obtain f where r: "r = Fulfilled (Fn f)" by blast
    with ps assms Promise have "settle (f b s1) = (Fulfilled (Obj c), s')"
      by (simp add: consume_Promise_Fn)
    then have "settle (wrapper (mark tag async) options f b s1) =
        (Fulfilled (Obj (c @ [tag])), s' @ [tag])"
      by (simp add: settle_wrapper then_Fulfilled settle_mark)
    moreover have "promise_then p ?k s = (Fulfilled (Fn (wrapper (mark tag async) options f)), s1)"
      using ps r by (simp add: then_Fulfilled)
    ultimately show ?thesis
      using res by (simp add: consume_Promise_Fn)
  next
    case False
    with ps assms Promise have "(r, s1) = (Fulfilled (Obj c), s')"
      by (simp add: consume_Promise_other)
    with ps have "promise_then p ?k s = (Fulfilled (Obj (c @ [tag])), s' @ [tag])"
      by (simp add: then_Fulfilled settle_mark)
    then show ?thesis
      using res by (simp add: consume_Promise_other)
  qed
qed

lemma reduce_mark_entries:
  "consume b acc s = (Fulfilled (Obj c), s') \<Longrightarrow>
   consume_result b
     (reduce (map (\<lambda>(tag, async, paired). mark_entry tag async paired) marks) acc s) =
       (Fulfilled (Obj (c @ map fst marks)), s' @ map fst marks)"
proof (induction marks arbitrary: acc s c s')
  case Nil
  then show ?case by (simp add: consume_result_def)
next
  case (Cons m marks)
  obtain tag async paired where m: "m = (tag, async, paired)" by (cases m)
  let ?options = "case paired of None \<Rightarrow> None | Some options \<Rightarrow> options"
  obtain a s1 where ap: "createMetroConfigTransformer (mark tag async) acc ?options s = (a, s1)"
    by (cases "createMetroConfigTransformer (mark tag async) acc ?options s")
  from transformer_mark [OF Cons.prems, of tag async ?options]
  have step: "consume_result b (a, s1) = (Fulfilled (Obj (c @ [tag])), s' @ [tag])"
    by (simp add: ap)
  show ?case
  proof (cases a)
    case (Inl e)
    with step show ?thesis by (simp add: consume_result_def)
  next
    case (Inr acc1)
    with step have "consume b acc1 s1 = (Fulfilled (Obj (c @ [tag])), s' @ [tag])"
      by (simp add: consume_result_def)
    from Cons.IH [OF this] m ap Inr show ?thesis
      by (simp add: apply_mark_entry)
  qed
qed

section \<open>The adapter on a callable input\<close>

text \<open>
  C1: for every callable input \<open>f\<close> (a Producer or a Deferred Producer) and every
  mutation, the adapted transformer returns a new callable \<open>g\<close>, without running anything.
  Invoked with a base configuration, \<open>g\<close> returns a deferred result if and only if \<open>f\<close>
  returns a deferred result or \<open>mutate\<close> returns one for that invocation; on an immediate
  result of \<open>f\<close> it returns what \<open>mutate\<close> returns for it; and when \<open>f\<close> returns a deferred
  result, \<open>g\<close> returns a promise that settles as \<open>mutate\<close> applied to the awaited result of
  \<open>f\<close>.
\<close>

theorem transformer_wraps_callable:
  "\<exists>g. createMetroConfigTransformer mutate (Fn f) options s = (Inr (Fn g), s) \<and>
       producer_wrapping mutate options f g \<and>
       (\<forall>baseConfig t p t1 u v u1.
          f baseConfig t = (Inr (Promise p), t1) \<and> p u = (Fulfilled v, u1) \<longrightarrow>
          (\<exists>p'. g baseConfig t = (Inr (Promise p'), t1) \<and> p' u = settle (mutate v options u1)))"
proof (intro exI [of _ "wrapper mutate options f"] conjI allI impI)
  fix baseConfig t p t1 u v u1
  assume "f baseConfig t = (Inr (Promise p), t1) \<and> p u = (Fulfilled v, u1)"
  then show "\<exists>p'. wrapper mutate options f baseConfig t = (Inr (Promise p'), t1) \<and>
       p' u = settle (mutate v options u1)"
    by (simp add: wrapper_deferred then_Fulfilled)
qed (rule cmt_Fn, rule wrapper_producer_wrapping)

theorem transformer_wraps_callable_witness:
  "(\<exists>g. createMetroConfigTransformer add_key (Fn extend_base) (Some ''y'') [] = (Inr (Fn g), []) \<and>
        g [''a''] [] = (Inr (Obj [''a'', ''x'', ''y'']), [''inner'', ''mutate'']) \<and>
        \<not> returns_deferred (g [''a''] [])) \<and>
   (\<exists>g p'. createMetroConfigTransformer add_key (Fn extend_base_async) (Some ''y'') [] = (Inr (Fn g), []) \<and>
        g [''a''] [] = (Inr (Promise p'), [''inner'']) \<and>
        returns_deferred (g [''a''] []) \<and>
        p' [''inner''] = (Fulfilled (Obj [''a'', ''x'', ''y'']), [''inner'', ''mutate'']))"
proof
  from transformer_wraps_callable [of add_key extend_base "Some ''y''" "[]"]
  obtain g where g: "createMetroConfigTransformer add_key (Fn extend_base) (Some ''y'') [] = (Inr (Fn g), [])"
    and w: "producer_wrapping add_key (Some ''y'') extend_base g"
    by (elim exE conjE)
  from w [unfolded producer_wrapping_def, THEN spec, THEN spec, of "[''a'']" "[]"]
  have "g [''a''] [] = (Inr (Obj [''a'', ''x'', ''y'']), [''inner'', ''mutate''])"
    by (simp add: add_key_def extend_base_def)
  with g show "\<exists>g. createMetroConfigTransformer add_key (Fn extend_base) (Some ''y'') [] = (Inr (Fn g), []) \<and>
        g [''a''] [] = (Inr (Obj [''a'', ''x'', ''y'']), [''inner'', ''mutate'']) \<and>
        \<not> returns_deferred (g [''a''] [])"
    by simp
next
  let ?p = "\<lambda>u. (Fulfilled (Obj [''a'', ''x'']), u) ::
    ((string list, string, string list) jsval, string) outcome \<times> string list"
  from transformer_wraps_callable [of add_key extend_base_async "Some ''y''" "[]"]
  obtain g where g: "createMetroConfigTransformer add_key (Fn extend_base_async) (Some ''y'') [] = (Inr (Fn g), [])"
    and a: "\<forall>baseConfig t p t1 u v u1.
          extend_base_async baseConfig t = (Inr (Promise p), t1) \<and> p u = (Fulfilled v, u1) \<longrightarrow>
          (\<exists>p'. g baseConfig t = (Inr (Promise p'), t1) \<and> p' u = settle (add_key v (Some ''y'') u1))"
    by (elim exE conjE)
  from a [rule_format, of "[''a'']" "[]" ?p "[''inner'']" "[''inner'']" "Obj [''a'', ''x'']" "[''inner'']"]
  obtain p' where "g [''a''] [] = (Inr (Promise p'), [''inner''])"
    and "p' [''inner''] = (Fulfilled (Obj [''a'', ''x'', ''y'']), [''inner'', ''mutate''])"
    by (auto simp: extend_base_async_def add_key_def)
  with g show "\<exists>g p'. createMetroConfigTransformer add_key (Fn extend_base_async) (Some ''y'') [] = (Inr (Fn g), []) \<and>
        g [''a''] [] = (Inr (Promise p'), [''inner'']) \<and>
        returns_deferred (g [''a''] []) \<and>
        p' [''inner''] = (Fulfilled (Obj [''a'', ''x'', ''y'']), [''inner'', ''mutate''])"
    by simp
qed

text \<open>
  C8: when the inner callable of a wrapped Producer or Deferred Producer throws, the
  wrapper throws the same error in the state the inner call left; when it returns a
  promise that rejects, the wrapper's promise rejects with the same error in the state
  the inner promise left. This holds for every \<open>mutate\<close>, whatever it would do to the
  result or to the state: \<open>mutate\<close> is not invoked for that call.
\<close>

theorem inner_failure_propagates:
  "\<exists>g. createMetroConfigTransformer mutate (Fn f) options s = (Inr (Fn g), s) \<and>
     (\<forall>baseConfig t e t1. f baseConfig t = (Inl e, t1) \<longrightarrow> g baseConfig t = (Inl e, t1)) \<and>
     (\<forall>baseConfig t p t1 u e u1.
        f baseConfig t = (Inr (Promise p), t1) \<and> p u = (Rejected e, u1) \<longrightarrow>
        (\<exists>p'. g baseConfig t = (Inr (Promise p'), t1) \<and> p' u = (Rejected e, u1)))"
proof (rule exI, rule conjI, rule cmt_Fn, intro allI conjI impI)
  fix baseConfig t e t1
  assume "f baseConfig t = (Inl e, t1)"
  then show "wrapper mutate options f baseConfig t = (Inl e, t1)"
    by (rule wrapper_throws)
next
  fix baseConfig t p t1 u e u1
  assume "f baseConfig t = (Inr (Promise p), t1) \<and> p u = (Rejected e, u1)"
  then show "\<exists>p'. wrapper mutate options f baseConfig t = (Inr (Promise p'), t1) \<and>
      p' u = (Rejected e, u1)"
    by (simp add: wrapper_deferred then_Rejected)
qed

theorem inner_failure_propagates_witness:
  "(\<exists>g. createMetroConfigTransformer add_key (Fn throwing_producer) None [] = (Inr (Fn g), []) \<and>
        g [''a''] [] = (Inl ''boom'', [''inner''])) \<and>
   (\<exists>g p'. createMetroConfigTransformer add_key (Fn rejecting_producer) None [] = (Inr (Fn g), []) \<and>
        g [''a''] [] = (Inr (Promise p'), [''inner'']) \<and>
        p' [''inner''] = (Rejected ''boom'', [''inner'']))"
proof
  from inner_failure_propagates [of add_key throwing_producer None "[]"]
  obtain g where g: "createMetroConfigTransformer add_key (Fn throwing_producer) None [] = (Inr (Fn g), [])"
    and a: "\<forall>baseConfig t e t1. throwing_producer baseConfig t = (Inl e, t1) \<longrightarrow> g baseConfig t = (Inl e, t1)"
    by (elim exE conjE)
  from a [rule_format, of "[''a'']" "[]" "''boom''" "[''inner'']"]
  have "g [''a''] [] = (Inl ''boom'', [''inner''])"
    by (simp add: throwing_producer_def)
  with g show "\<exists>g. createMetroConfigTransformer add_key (Fn throwing_producer) None [] = (Inr (Fn g), []) \<and>
        g [''a''] [] = (Inl ''boom'', [''inner''])"
    by simp
next
  let ?p = "\<lambda>u. (Rejected ''boom'', u) ::
    ((string list, string, string list) jsval, string) outcome \<times> string list"
  from inner_failure_propagates [of add_key rejecting_producer None "[]"]
  obtain g where g: "createMetroConfigTransformer add_key (Fn rejecting_producer) None [] = (Inr (Fn g), [])"
    and a: "\<forall>baseConfig t p t1 u e u1.
        rejecting_producer baseConfig t = (Inr (Promise p), t1) \<and> p u = (Rejected e, u1) \<longrightarrow>
        (\<exists>p'. g baseConfig t = (Inr (Promise p'), t1) \<and> p' u = (Rejected e, u1))"
    by (elim exE conjE)
  from a [rule_format, of "[''a'']" "[]" ?p "[''inner'']" "[''inner'']" "''boom''" "[''inner'']"]
  obtain p' where "g [''a''] [] = (Inr (Promise p'), [''inner''])"
    and "p' [''inner''] = (Rejected ''boom'', [''inner''])"
    by (auto simp: rejecting_producer_def)
  with g show "\<exists>g p'. createMetroConfigTransformer add_key (Fn rejecting_producer) None [] = (Inr (Fn g), []) \<and>
        g [''a''] [] = (Inr (Promise p'), [''inner'']) \<and>
        p' [''inner''] = (Rejected ''boom'', [''inner''])"
    by simp
qed

section \<open>The adapter on a deferred input\<close>

text \<open>
  C2: for every input that is a deferred computation \<open>p\<close>, the adapted transformer returns
  a deferred computation \<open>p'\<close>, without running anything. When \<open>p\<close> resolves to a callable
  \<open>g\<close>, \<open>p'\<close> resolves to a new callable, the one the transformer gives for \<open>g\<close> itself, with
  the Producer wrapping behaviour. When \<open>p\<close> resolves to a direct configuration value,
  \<open>p'\<close> settles as \<open>mutate\<close> applied to that value: it resolves to the configuration that
  \<open>mutate\<close> returns, or settles as the promise that \<open>mutate\<close> returns. So a Deferred Direct
  input yields a Deferred Direct output. A rejected or pending input stays so.
\<close>

theorem transformer_on_deferred:
  "\<exists>p'. createMetroConfigTransformer mutate (Promise p) options s = (Inr (Promise p'), s) \<and>
     (\<forall>u u1.
        (\<forall>g. p u = (Fulfilled (Fn g), u1) \<longrightarrow>
           (\<exists>w. p' u = (Fulfilled (Fn w), u1) \<and> producer_wrapping mutate options g w \<and>
                createMetroConfigTransformer mutate (Fn g) options u1 = (Inr (Fn w), u1))) \<and>
        (\<forall>c. p u = (Fulfilled (Obj c), u1) \<longrightarrow> p' u = settle (mutate (Obj c) options u1)) \<and>
        (\<forall>c c' u2. p u = (Fulfilled (Obj c), u1) \<and> mutate (Obj c) options u1 = (Inr (Obj c'), u2) \<longrightarrow>
           p' u = (Fulfilled (Obj c'), u2)) \<and>
        (\<forall>c q u2. p u = (Fulfilled (Obj c), u1) \<and> mutate (Obj c) options u1 = (Inr (Promise q), u2) \<longrightarrow>
           p' u = q u2) \<and>
        (\<forall>e. p u = (Rejected e, u1) \<longrightarrow> p' u = (Rejected e, u1)) \<and>
        (p u = (Pending, u1) \<longrightarrow> p' u = (Pending, u1)))"
proof (rule exI, rule conjI, rule cmt_Promise, intro allI conjI impI)
  fix u u1 g
  assume "p u = (Fulfilled (Fn g), u1)"
  then have "promise_then p (\<lambda>resolved u.
            case resolved of
              Fn g \<Rightarrow> (Inr (Fn (wrapper mutate options g)), u)
            | _ \<Rightarrow> mutate resolved options u) u = (Fulfilled (Fn (wrapper mutate options g)), u1)"
    by (simp add: then_Fulfilled)
  then show "\<exists>w. promise_then p (\<lambda>resolved u.
            case resolved of
              Fn g \<Rightarrow> (Inr (Fn (wrapper mutate options g)), u)
            | _ \<Rightarrow> mutate resolved options u) u = (Fulfilled (Fn w), u1) \<and>
          producer_wrapping mutate options g w \<and>
          createMetroConfigTransformer mutate (Fn g) options u1 = (Inr (Fn w), u1)"
    by (simp add: wrapper_producer_wrapping cmt_Fn)
qed (simp_all add: then_Fulfilled then_Rejected then_Pending)

theorem transformer_on_deferred_witness:
  "(\<exists>p'. createMetroConfigTransformer add_key_async (Promise (\<lambda>u. (Fulfilled (Obj [''a'']), u))) (Some ''b'') []
          = (Inr (Promise p'), []) \<and>
        p' [] = (Fulfilled (Obj [''a'', ''b'']), [''mutate''])) \<and>
   (\<exists>p' w. createMetroConfigTransformer add_key (Promise (\<lambda>u. (Fulfilled (Fn extend_base), u))) (Some ''z'') []
          = (Inr (Promise p'), []) \<and>
        p' [] = (Fulfilled (Fn w), []) \<and>
        w [''a''] [] = (Inr (Obj [''a'', ''x'', ''z'']), [''inner'', ''mutate'']))"
proof
  let ?p = "\<lambda>u. (Fulfilled (Obj [''a'']), u) ::
    ((string list, string, string list) jsval, string) outcome \<times> string list"
  from transformer_on_deferred [of add_key_async ?p "Some ''b''" "[]"]
  obtain p' where p': "createMetroConfigTransformer add_key_async (Promise ?p) (Some ''b'') [] = (Inr (Promise p'), [])"
    and a: "\<forall>u u1.
        (\<forall>g. ?p u = (Fulfilled (Fn g), u1) \<longrightarrow>
           (\<exists>w. p' u = (Fulfilled (Fn w), u1) \<and> producer_wrapping add_key_async (Some ''b'') g w \<and>
                createMetroConfigTransformer add_key_async (Fn g) (Some ''b'') u1 = (Inr (Fn w), u1))) \<and>
        (\<forall>c. ?p u = (Fulfilled (Obj c), u1) \<longrightarrow> p' u = settle (add_key_async (Obj c) (Some ''b'') u1)) \<and>
        (\<forall>c c' u2. ?p u = (Fulfilled (Obj c), u1) \<and> add_key_async (Obj c) (Some ''b'') u1 = (Inr (Obj c'), u2) \<longrightarrow>
           p' u = (Fulfilled (Obj c'), u2)) \<and>
        (\<forall>c q u2. ?p u = (Fulfilled (Obj c), u1) \<and> add_key_async (Obj c) (Some ''b'') u1 = (Inr (Promise q), u2) \<longrightarrow>
           p' u = q u2) \<and>
        (\<forall>e. ?p u = (Rejected e, u1) \<longrightarrow> p' u = (Rejected e, u1)) \<and>
        (?p u = (Pending, u1) \<longrightarrow> p' u = (Pending, u1))"
    by (elim exE conjE)
  from a [THEN spec, THEN spec, of "[]" "[]"]
  have "p' [] = (Fulfilled (Obj [''a'', ''b'']), [''mutate''])"
    by (simp add: add_key_async_def)
  with p' show "\<exists>p'. createMetroConfigTransformer add_key_async (Promise ?p) (Some ''b'') []
          = (Inr (Promise p'), []) \<and>
        p' [] = (Fulfilled (Obj [''a'', ''b'']), [''mutate''])"
    by simp
next
  let ?p = "\<lambda>u. (Fulfilled (Fn extend_base), u) ::
    ((string list, string, string list) jsval, string) outcome \<times> string list"
  from transformer_on_deferred [of add_key ?p "Some ''z''" "[]"]
  obtain p' where p': "createMetroConfigTransformer add_key (Promise ?p) (Some ''z'') [] = (Inr (Promise p'), [])"
    and a: "\<forall>u u1.
        (\<forall>g. ?p u = (Fulfilled (Fn g), u1) \<longrightarrow>
           (\<exists>w. p' u = (Fulfilled (Fn w), u1) \<and> producer_wrapping add_key (Some ''z'') g w \<and>
                createMetroConfigTransformer add_key (Fn g) (Some ''z'') u1 = (Inr (Fn w), u1))) \<and>
        (\<forall>c. ?p u = (Fulfilled (Obj c), u1) \<longrightarrow> p' u = settle (add_key (Obj c) (Some ''z'') u1)) \<and>
        (\<forall>c c' u2. ?p u = (Fulfilled (Obj c), u1) \<and> add_key (Obj c) (Some ''z'') u1 = (Inr (Obj c'), u2) \<longrightarrow>
           p' u = (Fulfilled (Obj c'), u2)) \<and>
        (\<forall>c q u2. ?p u = (Fulfilled (Obj c), u1) \<and> add_key (Obj c) (Some ''z'') u1 = (Inr (Promise q), u2) \<longrightarrow>
           p' u = q u2) \<and>
        (\<forall>e. ?p u = (Rejected e, u1) \<longrightarrow> p' u = (Rejected e, u1)) \<and>
        (?p u = (Pending, u1) \<longrightarrow> p' u = (Pending, u1))"
    by (elim exE conjE)
  from a [THEN spec, THEN spec, of "[]" "[]", THEN conjunct1, THEN spec, of extend_base]
  obtain w where w1: "p' [] = (Fulfilled (Fn w), [])"
    and w2: "producer_wrapping add_key (Some ''z'') extend_base w"
    by auto
  from w2 [unfolded producer_wrapping_def, THEN spec, THEN spec, of "[''a'']" "[]"]
  have "w [''a''] [] = (Inr (Obj [''a'', ''x'', ''z'']), [''inner'', ''mutate''])"
    by (simp add: add_key_def extend_base_def)
  with p' w1 show "\<exists>p' w. createMetroConfigTransformer add_key (Promise ?p) (Some ''z'') []
          = (Inr (Promise p'), []) \<and>
        p' [] = (Fulfilled (Fn w), []) \<and>
        w [''a''] [] = (Inr (Obj [''a'', ''x'', ''z'']), [''inner'', ''mutate''])"
    by simp
qed

section \<open>The adapter on a direct input\<close>

text \<open>
  C3: for every direct input and every options value, the adapted transformer does and
  returns exactly what \<open>mutate\<close> does and returns for that input and those options. So the
  result is deferred exactly when \<open>mutate\<close> itself returns a deferred value.
\<close>

theorem transformer_on_direct:
  "createMetroConfigTransformer mutate (Obj c) options s = mutate (Obj c) options s \<and>
   returns_deferred (createMetroConfigTransformer mutate (Obj c) options s) =
     returns_deferred (mutate (Obj c) options s)"
  by (simp add: cmt_Obj)

theorem transformer_on_direct_witness:
  "createMetroConfigTransformer add_key (Obj [''a'']) (Some ''b'') [] =
     (Inr (Obj [''a'', ''b'']), [''mutate'']) \<and>
   \<not> returns_deferred (createMetroConfigTransformer add_key (Obj [''a'']) (Some ''b'') []) \<and>
   returns_deferred (createMetroConfigTransformer add_key_async (Obj [''a'']) (Some ''b'') [])"
  using transformer_on_direct [of add_key "[''a'']" "Some ''b''" "[]"]
    transformer_on_direct [of add_key_async "[''a'']" "Some ''b''" "[]"]
  by (simp add: add_key_def add_key_async_def)

text \<open>
  C9: take a direct input \<open>c\<close> and any observation \<open>fields c\<close> that the caller can make of
  that value in the program state. If the call of \<open>mutate\<close> on \<open>c\<close> leaves the observation
  as it was (the mutation builds a new value and does not write to its argument), then
  so does the call of the adapted transformer.
\<close>

theorem direct_input_not_altered:
  "fields c (snd (mutate (Obj c) options s)) = fields c s \<Longrightarrow>
   fields c (snd (createMetroConfigTransformer mutate (Obj c) options s)) = fields c s"
  by (simp add: cmt_Obj)

theorem direct_input_not_altered_witness:
  "snd (allocate_copy (Obj 0) None (\<lambda>a. [])) 0 = [] \<and>
   snd (createMetroConfigTransformer allocate_copy (Obj 0) None (\<lambda>a. [])) 0 = [] \<and>
   snd (createMetroConfigTransformer allocate_copy (Obj 0) None (\<lambda>a. [])) 1 = [''newProperty'']"
proof -
  have h: "snd (allocate_copy (Obj 0) None (\<lambda>a. [])) 0 = (\<lambda>a. []) 0"
    by (simp add: allocate_copy_def)
  from direct_input_not_altered [of "\<lambda>a heap. heap a" 0 allocate_copy None "\<lambda>a. []", OF h] h
  show ?thesis
    by (simp add: cmt_Obj allocate_copy_def)
qed

section \<open>The composer\<close>

text \<open>
  C6: composing no entries gives the identity: the combined transformer returns its
  input, whatever its shape, throws nothing and touches nothing.
\<close>

theorem compose_empty_identity:
  "composeMetroConfigTransformers [] input s = (Inr input, s)"
  by (simp add: composeMetroConfigTransformers_def)

text \<open>
  C4: the combined transformer is a strict left fold. With no entries it returns the
  input. A tuple entry anywhere in the sequence has its transformer called with the
  paired options on the accumulator that the entries before it produced from the input,
  in the state they left; a bare entry has its transformer called on that accumulator
  with no options; the entries after it continue from what it returned, and a throw
  ends the fold. So for transformers that each append a marker to the configuration,
  synchronous or deferred and bare or paired with options in any mixture, and an input
  of any shape from which the consumer would get the configuration \<open>c\<close>: the consumer gets
  from the combined output \<open>c\<close> with all markers, in the order of the entries, and the
  mutations have run in that order.
\<close>

theorem compose_left_fold_order:
  "composeMetroConfigTransformers [] input s = (Inr input, s) \<and>
   composeMetroConfigTransformers (before @ Tuple transformer options # after) input s =
     (case composeMetroConfigTransformers before input s of
        (Inl e, s1) \<Rightarrow> (Inl e, s1)
      | (Inr acc, s1) \<Rightarrow>
          (case transformer acc options s1 of
             (Inl e, s2) \<Rightarrow> (Inl e, s2)
           | (Inr acc1, s2) \<Rightarrow> composeMetroConfigTransformers after acc1 s2)) \<and>
   composeMetroConfigTransformers (before @ Plain transformer # after) input s =
     (case composeMetroConfigTransformers before input s of
        (Inl e, s1) \<Rightarrow> (Inl e, s1)
      | (Inr acc, s1) \<Rightarrow>
          (case transformer acc None s1 of
             (Inl e, s2) \<Rightarrow> (Inl e, s2)
           | (Inr acc1, s2) \<Rightarrow> composeMetroConfigTransformers after acc1 s2)) \<and>
   (consume baseConfig marked log = (Fulfilled (Obj c), log') \<longrightarrow>
    consume_result baseConfig
      (composeMetroConfigTransformers
         (map (\<lambda>(tag, async, paired). mark_entry tag async paired) marks) marked log) =
      (Fulfilled (Obj (c @ map fst marks)), log' @ map fst marks))"
proof (intro conjI impI)
  show "composeMetroConfigTransformers [] input s = (Inr input, s)"
    by (simp add: composeMetroConfigTransformers_def)
next
  assume "consume baseConfig marked log = (Fulfilled (Obj c), log')"
  then show "consume_result baseConfig
      (composeMetroConfigTransformers
         (map (\<lambda>(tag, async, paired). mark_entry tag async paired) marks) marked log) =
      (Fulfilled (Obj (c @ map fst marks)), log' @ map fst marks)"
    unfolding composeMetroConfigTransformers_def by (rule reduce_mark_entries)
qed (rule compose_Tuple_in_chain, rule compose_Plain_in_chain)

theorem compose_left_fold_order_witness:
  "consume_result []
     (composeMetroConfigTransformers
        (map (\<lambda>(tag, async, paired). mark_entry tag async paired)
           [(''T1'', False, None), (''T2'', True, Some (Some ''opts'')), (''T3'', False, Some None)])
        (Obj [''a'']) []) =
     (Fulfilled (Obj [''a'', ''T1'', ''T2'', ''T3'']), [''T1'', ''T2'', ''T3'']) \<and>
   consume [''a''] (Fn extend_base_async) [] = (Fulfilled (Obj [''a'', ''x'']), [''inner'']) \<and>
   consume_result [''a'']
     (composeMetroConfigTransformers
        (map (\<lambda>(tag, async, paired). mark_entry tag async paired)
           [(''T1'', True, Some (Some ''opts'')), (''T2'', False, None)])
        (Fn extend_base_async) []) =
     (Fulfilled (Obj [''a'', ''x'', ''T1'', ''T2'']), [''inner'', ''T1'', ''T2''])"
proof -
  have h1: "consume [] (Obj [''a'']) [] =
      (Fulfilled (Obj [''a'']) :: ((string list, string, string list) jsval, string) outcome, [])"
    by (simp add: consume_Obj)
  have h2: "consume [''a''] (Fn extend_base_async) [] = (Fulfilled (Obj [''a'', ''x'']), [''inner''])"
    by (simp add: consume_Fn extend_base_async_def)
  note fold = compose_left_fold_order [THEN conjunct2, THEN conjunct2, THEN conjunct2, rule_format]
  from fold [OF h1, of "[(''T1'', False, None), (''T2'', True, Some (Some ''opts'')), (''T3'', False, Some None)]"]
    fold [OF h2, of "[(''T1'', True, Some (Some ''opts'')), (''T2'', False, None)]"]
    h2
  show ?thesis by simp
qed

text \<open>
  C5, as the claim states it, fails. The chain below has an adapted transformer whose
  mutation returns a rejected promise, followed by a transformer written by hand. The
  first entry alone gives the consumer the rejection. In the chain of both, the fold
  calls the second entry on the rejected promise: it runs (the log shows it) and the
  consumer gets its configuration, not the error.
\<close>

theorem later_entry_runs_after_rejection:
  "consume_result []
     (composeMetroConfigTransformers [Plain (createMetroConfigTransformer rejecting_mutation)]
        (Obj [''a'']) []) = (Rejected ''boom'', [''reject'']) \<and>
   consume_result []
     (composeMetroConfigTransformers
        [Plain (createMetroConfigTransformer rejecting_mutation), Plain recovering_entry]
        (Obj [''a'']) []) = (Fulfilled (Obj [''recovered'']), [''reject'', ''late''])"
  by (simp add: composeMetroConfigTransformers_def cmt_Obj rejecting_mutation_def recovering_entry_def
      consume_result_def consume_def)

text \<open>
  C5, amended: a throw ends the fold, a rejection passes through adapted transformers.
  If an entry throws when the fold calls its transformer (with the paired options, or
  with none for a bare entry) on the accumulator of the entries before it, the combined
  transformer throws that same error in the state the entry left, whatever entries come
  after it: no accumulator is returned and no later entry is called. If an entry
  returns a value in which the consumer would meet a failure (a rejected promise, or a
  callable that throws or rejects for the base configuration), the fold goes on; when
  the later entries are adapted transformers, the consumer of the combined output meets
  that same error in the same state: it gets no partial configuration, and no later
  mutation has run.
\<close>

theorem compose_failure_propagates:
  "(composeMetroConfigTransformers before input s = (Inr acc, s1) \<and>
    transformer acc options s1 = (Inl err, s2) \<longrightarrow>
      composeMetroConfigTransformers (before @ Tuple transformer options # later) input s = (Inl err, s2)) \<and>
   (composeMetroConfigTransformers before input s = (Inr acc, s1) \<and>
    transformer acc None s1 = (Inl err, s2) \<longrightarrow>
      composeMetroConfigTransformers (before @ Plain transformer # later) input s = (Inl err, s2)) \<and>
   (composeMetroConfigTransformers before input s = (Inr acc, s1) \<and>
    transformer acc options s1 = (Inr v, s2) \<and> consume baseConfig v s2 = (Rejected err, s') \<longrightarrow>
      consume_result baseConfig
        (composeMetroConfigTransformers (before @ Tuple transformer options # map entry_of units) input s) =
        (Rejected err, s')) \<and>
   (composeMetroConfigTransformers before input s = (Inr acc, s1) \<and>
    transformer acc None s1 = (Inr v, s2) \<and> consume baseConfig v s2 = (Rejected err, s') \<longrightarrow>
      consume_result baseConfig
        (composeMetroConfigTransformers (before @ Plain transformer # map entry_of units) input s) =
        (Rejected err, s'))"
proof (intro conjI impI)
  assume "composeMetroConfigTransformers before input s = (Inr acc, s1) \<and>
    transformer acc options s1 = (Inl err, s2)"
  then show "composeMetroConfigTransformers (before @ Tuple transformer options # later) input s = (Inl err, s2)"
    by (simp add: compose_Tuple_in_chain)
next
  assume "composeMetroConfigTransformers before input s = (Inr acc, s1) \<and>
    transformer acc None s1 = (Inl err, s2)"
  then show "composeMetroConfigTransformers (before @ Plain transformer # later) input s = (Inl err, s2)"
    by (simp add: compose_Plain_in_chain)
next
  assume a: "composeMetroConfigTransformers before input s = (Inr acc, s1) \<and>
    transformer acc options s1 = (Inr v, s2) \<and> consume baseConfig v s2 = (Rejected err, s')"
  then have "consume_result baseConfig (Inr v, s2) = (Rejected err, s')"
    by (simp add: consume_result_def)
  from reduce_keeps_unfulfilled [OF this, of units] a
  show "consume_result baseConfig
        (composeMetroConfigTransformers (before @ Tuple transformer options # map entry_of units) input s) =
        (Rejected err, s')"
    by (simp add: compose_Tuple_in_chain) (simp add: composeMetroConfigTransformers_def)
next
  assume a: "composeMetroConfigTransformers before input s = (Inr acc, s1) \<and>
    transformer acc None s1 = (Inr v, s2) \<and> consume baseConfig v s2 = (Rejected err, s')"
  then have "consume_result baseConfig (Inr v, s2) = (Rejected err, s')"
    by (simp add: consume_result_def)
  from reduce_keeps_unfulfilled [OF this, of units] a
  show "consume_result baseConfig
        (composeMetroConfigTransformers (before @ Plain transformer # map entry_of units) input s) =
        (Rejected err, s')"
    by (simp add: compose_Plain_in_chain) (simp add: composeMetroConfigTransformers_def)
qed


theorem compose_failure_propagates_witness:
  "composeMetroConfigTransformers
     ([Plain (createMetroConfigTransformer add_key)] @
      Tuple (createMetroConfigTransformer throwing_mutation) (Some ''k'') # [Plain recovering_entry])
     (Obj [''a'']) [] = (Inl ''boom'', [''mutate'', ''throw'']) \<and>
   consume_result []
     (composeMetroConfigTransformers
        ([] @ Plain (createMetroConfigTransformer rejecting_mutation) #
         map entry_of [Adapted add_key, AdaptedWith add_key_async (Some ''k'')])
        (Obj [''a'']) []) = (Rejected ''boom'', [''reject''])"
proof -
  have h1: "composeMetroConfigTransformers [Plain (createMetroConfigTransformer add_key)] (Obj [''a'']) [] =
      (Inr (Obj [''a'', ''undefined'']), [''mutate'']) \<and>
    createMetroConfigTransformer throwing_mutation (Obj [''a'', ''undefined'']) (Some ''k'') [''mutate''] =
      (Inl ''boom'', [''mutate'', ''throw''])"
    by (simp add: composeMetroConfigTransformers_def cmt_Obj add_key_def throwing_mutation_def)
  let ?p = "\<lambda>u. (Rejected ''boom'', u) ::
    ((string list, string, string list) jsval, string) outcome \<times> string list"
  have h2: "composeMetroConfigTransformers [] (Obj [''a'']) [] =
      (Inr (Obj [''a'']) :: string + (string list, string, string list) jsval, []) \<and>
    createMetroConfigTransformer rejecting_mutation (Obj [''a'']) None [] = (Inr (Promise ?p), [''reject'']) \<and>
    consume [] (Promise ?p) [''reject''] = (Rejected ''boom'', [''reject''])"
    by (simp add: composeMetroConfigTransformers_def cmt_Obj rejecting_mutation_def consume_def)
  from compose_failure_propagates [where transformer = "createMetroConfigTransformer throwing_mutation"
        and options = "Some ''k''" and later = "[Plain recovering_entry]",
      THEN conjunct1, rule_format, OF h1]
    compose_failure_propagates [where transformer = "createMetroConfigTransformer rejecting_mutation"
        and units = "[Adapted add_key, AdaptedWith add_key_async (Some ''k'')]",
      THEN conjunct2, THEN conjunct2, THEN conjunct2, rule_format, OF h2]
  show ?thesis by simp
qed

text \<open>
  C7: in a composed chain, a tuple entry \<^verbatim>\<open>[T, opts]\<close> at any position has \<open>T\<close> called on
  the accumulator with exactly \<open>opts\<close> as the options argument, and a bare entry has \<open>T\<close>
  called with no options argument, which the callee reads as \<^verbatim>\<open>undefined\<close>. An adapted
  transformer forwards its options argument unchanged to its mutation: it makes no call
  of the mutation with other options, and for an input of any shape from which the
  consumer would get a configuration, the consumer of its output gets what the mutation
  gives for that configuration and those options. So the consumer of a chain of adapted
  entries gets the run of their mutations, each with the options of its own tuple, or
  with \<^verbatim>\<open>undefined\<close> when its entry is bare.
\<close>

theorem compose_options_pass_through:
  "composeMetroConfigTransformers (before @ Tuple transformer options # after) input s =
     (case composeMetroConfigTransformers before input s of
        (Inl e, s1) \<Rightarrow> (Inl e, s1)
      | (Inr acc, s1) \<Rightarrow>
          (case transformer acc options s1 of
             (Inl e, s2) \<Rightarrow> (Inl e, s2)
           | (Inr acc1, s2) \<Rightarrow> composeMetroConfigTransformers after acc1 s2)) \<and>
   composeMetroConfigTransformers (before @ Plain transformer # after) input s =
     (case composeMetroConfigTransformers before input s of
        (Inl e, s1) \<Rightarrow> (Inl e, s1)
      | (Inr acc, s1) \<Rightarrow>
          (case transformer acc None s1 of
             (Inl e, s2) \<Rightarrow> (Inl e, s2)
           | (Inr acc1, s2) \<Rightarrow> composeMetroConfigTransformers after acc1 s2)) \<and>
   createMetroConfigTransformer mutate v given =
     createMetroConfigTransformer (\<lambda>config ignored. mutate config given) v other \<and>
   (config_valued mutate \<and> consume baseConfig v t = (Fulfilled (Obj c), t') \<longrightarrow>
      consume_result baseConfig (createMetroConfigTransformer mutate v given t) =
        settle (mutate (Obj c) given t')) \<and>
   ((\<forall>u\<in>set units. config_valued (mutation_of u)) \<and>
    consume baseConfig v t = (Fulfilled (Obj c), t') \<longrightarrow>
      consume_result baseConfig (composeMetroConfigTransformers (map entry_of units) v t) =
        run_units units c t')"
proof (intro conjI impI)
  show "createMetroConfigTransformer mutate v given =
     createMetroConfigTransformer (\<lambda>config ignored. mutate config given) v other"
    by (rule cmt_options)
next
  assume "config_valued mutate \<and> consume baseConfig v t = (Fulfilled (Obj c), t')"
  then show "consume_result baseConfig (createMetroConfigTransformer mutate v given t) =
        settle (mutate (Obj c) given t')"
    by (simp add: transformer_delivers)
next
  assume "(\<forall>u\<in>set units. config_valued (mutation_of u)) \<and>
    consume baseConfig v t = (Fulfilled (Obj c), t')"
  then show "consume_result baseConfig (composeMetroConfigTransformers (map entry_of units) v t) =
        run_units units c t'"
    unfolding composeMetroConfigTransformers_def by (simp add: reduce_adapted)
qed (rule compose_Tuple_in_chain, rule compose_Plain_in_chain)

theorem compose_options_pass_through_witness:
  "consume_result [''a'']
     (composeMetroConfigTransformers
        (map entry_of [Adapted add_key, AdaptedWith add_key (Some ''opts''), AdaptedWith add_key_async None])
        (Fn extend_base_async) []) =
     (Fulfilled (Obj [''a'', ''x'', ''undefined'', ''opts'', ''undefined'']),
      [''inner'', ''mutate'', ''mutate'', ''mutate'']) \<and>
   consume_result []
     (composeMetroConfigTransformers
        (map entry_of [AdaptedWith add_key_async (Some ''opts''), Adapted add_key])
        (Promise (\<lambda>u. (Fulfilled (Obj [''a'']), u))) []) =
     (Fulfilled (Obj [''a'', ''opts'', ''undefined'']), [''mutate'', ''mutate''])"
proof -
  let ?p = "\<lambda>u. (Fulfilled (Obj [''a'']), u) ::
    ((string list, string, string list) jsval, string) outcome \<times> string list"
  let ?units1 = "[Adapted add_key, AdaptedWith add_key (Some ''opts''), AdaptedWith add_key_async None]"
  let ?units2 = "[AdaptedWith add_key_async (Some ''opts''), Adapted add_key]"
  have h1: "(\<forall>u\<in>set ?units1. config_valued (mutation_of u)) \<and>
      consume [''a''] (Fn extend_base_async) [] = (Fulfilled (Obj [''a'', ''x'']), [''inner''])"
    by (simp add: config_valued_add_key config_valued_add_key_async consume_Fn extend_base_async_def)
  have h2: "(\<forall>u\<in>set ?units2. config_valued (mutation_of u)) \<and>
      consume [] (Promise ?p) [] = (Fulfilled (Obj [''a'']), [])"
    by (simp add: config_valued_add_key config_valued_add_key_async consume_def)
  note run = compose_options_pass_through [THEN conjunct2, THEN conjunct2, THEN conjunct2,
      THEN conjunct2, rule_format]
  from run [OF h1] run [OF h2]
  show ?thesis
    by (simp add: add_key_def add_key_async_def)
qed

text \<open>
  C10: for every adapted transformer \<open>T\<close> and every input, the chain of the single tuple
  entry \<^verbatim>\<open>[T, undefined]\<close> and the chain of the single bare entry \<open>T\<close> do and return the
  same (a parameter that is not passed holds \<^verbatim>\<open>undefined\<close>), namely what \<open>T\<close> does when
  every call of its mutation gets \<^verbatim>\<open>undefined\<close> for the options. Both invoke the mutation
  with \<^verbatim>\<open>undefined\<close>: for an input of any shape from which the consumer would get a
  configuration, the consumer of either chain gets what the mutation gives for that
  configuration and \<^verbatim>\<open>undefined\<close>.
\<close>

theorem tuple_undefined_equals_plain:
  "composeMetroConfigTransformers [Tuple (createMetroConfigTransformer mutate) None] input s =
     composeMetroConfigTransformers [Plain (createMetroConfigTransformer mutate)] input s \<and>
   composeMetroConfigTransformers [Plain (createMetroConfigTransformer mutate)] input s =
     createMetroConfigTransformer (\<lambda>config options. mutate config None) input options' s \<and>
   (config_valued mutate \<and> consume baseConfig input s = (Fulfilled (Obj c), s') \<longrightarrow>
      consume_result baseConfig
        (composeMetroConfigTransformers [Tuple (createMetroConfigTransformer mutate) None] input s) =
        settle (mutate (Obj c) None s') \<and>
      consume_result baseConfig
        (composeMetroConfigTransformers [Plain (createMetroConfigTransformer mutate)] input s) =
        settle (mutate (Obj c) None s'))"
proof -
  have same: "createMetroConfigTransformer mutate input None =
     createMetroConfigTransformer (\<lambda>config options. mutate config None) input options'"
    by (rule cmt_options)
  have tuple: "composeMetroConfigTransformers [Tuple (createMetroConfigTransformer mutate) None] input s =
      createMetroConfigTransformer mutate input None s"
    by (simp add: composeMetroConfigTransformers_def split: prod.splits sum.splits)
  have plain: "composeMetroConfigTransformers [Plain (createMetroConfigTransformer mutate)] input s =
      createMetroConfigTransformer mutate input None s"
    by (simp add: composeMetroConfigTransformers_def split: prod.splits sum.splits)
  have "config_valued mutate \<and> consume baseConfig input s = (Fulfilled (Obj c), s') \<longrightarrow>
      consume_result baseConfig (createMetroConfigTransformer mutate input None s) =
        settle (mutate (Obj c) None s')"
    by (simp add: transformer_delivers)
  with same show ?thesis
    unfolding tuple plain by simp
qed

theorem tuple_undefined_equals_plain_witness:
  "consume_result [''a'']
     (composeMetroConfigTransformers [Tuple (createMetroConfigTransformer add_key) None]
        (Fn extend_base) []) =
     (Fulfilled (Obj [''a'', ''x'', ''undefined'']), [''inner'', ''mutate'']) \<and>
   consume_result [''a'']
     (composeMetroConfigTransformers [Plain (createMetroConfigTransformer add_key)]
        (Fn extend_base) []) =
     (Fulfilled (Obj [''a'', ''x'', ''undefined'']), [''inner'', ''mutate''])"
proof -
  have h: "config_valued add_key \<and>
      consume [''a''] (Fn extend_base) [] = (Fulfilled (Obj [''a'', ''x'']), [''inner''])"
    by (simp add: config_valued_add_key consume_Fn extend_base_def)
  from tuple_undefined_equals_plain [THEN conjunct2, THEN conjunct2, rule_format, OF h]
  show ?thesis
    by (simp add: add_key_def)
qed

end
